theory Spec2Isabelle
  imports Main "HOL-Library.Word"
begin

unbundle bit_operations_syntax

section \<open>Data model\<close>

text \<open>
  Python integers are unbounded, so every integer of the program is an \<open>int\<close>; the
  64-bit wrap-around is the mask \<open>0xffffffffffffffff\<close> that the source writes out.
  A \<open>bytes\<close> value is a list of 8-bit words. An exception is a value \<open>Inl e\<close> of the
  result type \<open>error + 'a\<close>.
\<close>

datatype error = OverflowError | ValueError

type_synonym byte = "8 word"

type_synonym internal_state = "int \<times> int \<times> int \<times> int"

definition bind_res :: "error + 'a \<Rightarrow> ('a \<Rightarrow> error + 'b) \<Rightarrow> error + 'b" where
  "bind_res r f = (case r of Inl e \<Rightarrow> Inl e | Inr x \<Rightarrow> f x)"

text \<open>The instance attributes set by \<open>SipHash.__init__\<close>; \<open>hash = None\<close> until the
  first digest is stored.\<close>

record SipHash =
  key :: int
  message :: "byte list"
  c :: int
  d :: int
  hash :: "int option"

section \<open>Python built-ins used by the source\<close>

datatype byteorder = Big | Little

fun le_bytes :: "nat \<Rightarrow> int \<Rightarrow> byte list" where
  "le_bytes 0 n = []"
| "le_bytes (Suc k) n = word_of_int (n mod 256) # le_bytes k (n div 256)"

text \<open>\<open>int.to_bytes(length, byteorder)\<close> (unsigned): OverflowError on a negative
  integer and on one that does not fit into \<open>length\<close> bytes.\<close>

definition to_bytes :: "int \<Rightarrow> nat \<Rightarrow> byteorder \<Rightarrow> error + byte list" where
  "to_bytes n len order =
     (if n < 0 then Inl OverflowError
      else if 2 ^ (8 * len) \<le> n then Inl OverflowError
      else Inr (case order of Little \<Rightarrow> le_bytes len n | Big \<Rightarrow> rev (le_bytes len n)))"

fun from_bytes_little :: "byte list \<Rightarrow> int" where
  "from_bytes_little [] = 0"
| "from_bytes_little (b # bs) = uint b + 256 * from_bytes_little bs"

text \<open>\<open>int.from_bytes(bytes, byteorder)\<close> (unsigned).\<close>

definition from_bytes :: "byte list \<Rightarrow> byteorder \<Rightarrow> int" where
  "from_bytes bs order =
     (case order of Little \<Rightarrow> from_bytes_little bs | Big \<Rightarrow> from_bytes_little (rev bs))"

text \<open>\<open>range(i, n, 8)\<close>, the indices of the list comprehension in
  \<open>_message_to_words\<close>.\<close>

function range8 :: "nat \<Rightarrow> nat \<Rightarrow> nat list" where
  "range8 i n = (if i < n then i # range8 (i + 8) n else [])"
  by pat_completeness auto
termination
  by (relation "measure (\<lambda>(i, n). n - i)") auto

declare range8.simps [simp del]

definition hex_digit :: "nat \<Rightarrow> char" where
  "hex_digit n = ''0123456789abcdef'' ! n"

function hex_digits :: "nat \<Rightarrow> string" where
  "hex_digits n = (if n < 16 then [hex_digit n] else hex_digits (n div 16) @ [hex_digit (n mod 16)])"
  by pat_completeness auto
termination
  by (relation "measure id") auto

declare hex_digits.simps [simp del]

text \<open>\<open>hex(n)\<close>: the prefix \<open>0x\<close> (\<open>-0x\<close> for a negative integer), then the lowercase
  digits without leading zeros.\<close>

definition hex :: "int \<Rightarrow> string" where
  "hex n = (if n < 0 then ''-0x'' @ hex_digits (nat (- n)) else ''0x'' @ hex_digits (nat n))"

section \<open>util.py\<close>

definition big_to_little8 :: "int \<Rightarrow> error + int" where
  "big_to_little8 num = bind_res (to_bytes num 8 Big) (\<lambda>bs. Inr (from_bytes bs Little))"

text \<open>\<open>rotl8\<close>: Python raises ValueError on a negative shift count, which
  \<open>num << bits\<close> has for \<open>bits < 0\<close> and \<open>num >> (64 - bits)\<close> for \<open>bits > 64\<close>.\<close>

definition rotl8 :: "int \<Rightarrow> int \<Rightarrow> error + int" where
  "rotl8 num bits =
     (if bits < 0 \<or> 64 - bits < 0 then Inl ValueError
      else Inr ((push_bit (nat bits) num AND 0xffffffffffffffff) OR drop_bit (nat (64 - bits)) num))"

section \<open>siphash.py\<close>

text \<open>\<open>SipHash.__init__\<close>; the defaults of the source are \<open>c = 2\<close> and \<open>d = 4\<close>.\<close>

definition SipHash_init :: "int \<Rightarrow> byte list \<Rightarrow> int \<Rightarrow> int \<Rightarrow> SipHash" where
  "SipHash_init k m cr dr = \<lparr>key = k, message = m, c = cr, d = dr, hash = None\<rparr>"

text \<open>The tuple's components are evaluated from left to right.\<close>

definition encode_key :: "int \<Rightarrow> error + int \<times> int" where
  "encode_key k =
     bind_res (big_to_little8 (drop_bit (8 * 8) k)) (\<lambda>k0.
     bind_res (big_to_little8 (k AND 0xffffffffffffffff)) (\<lambda>k1.
     Inr (k0, k1)))"

definition initialise_internal_state :: "int \<Rightarrow> int \<Rightarrow> internal_state" where
  "initialise_internal_state k0 k1 =
     (let c1 = 0x736f6d6570736575;
          c2 = 0x646f72616e646f6d;
          c3 = 0x6c7967656e657261;
          c4 = 0x7465646279746573;
          v0 = k0 XOR c1;
          v1 = k1 XOR c2;
          v2 = k0 XOR c3;
          v3 = k1 XOR c4
      in (v0, v1, v2, v3))"

fun sipround :: "internal_state \<Rightarrow> error + internal_state" where
  "sipround (v0, v1, v2, v3) =
     (let v0 = (v0 + v1) AND 0xffffffffffffffff in
      bind_res (rotl8 v1 13) (\<lambda>v1.
      let v1 = v1 XOR v0 in
      bind_res (rotl8 v0 32) (\<lambda>v0.
      let v2 = (v2 + v3) AND 0xffffffffffffffff in
      bind_res (rotl8 v3 16) (\<lambda>v3.
      let v3 = v3 XOR v2;
          v2 = (v2 + v1) AND 0xffffffffffffffff in
      bind_res (rotl8 v1 17) (\<lambda>v1.
      let v1 = v1 XOR v2 in
      bind_res (rotl8 v2 32) (\<lambda>v2.
      let v0 = (v0 + v3) AND 0xffffffffffffffff in
      bind_res (rotl8 v3 21) (\<lambda>v3.
      let v3 = v3 XOR v0 in
      Inr (v0, v1, v2, v3))))))))"

text \<open>The padded buffer: the value of \<open>message\<close> after the assignment in
  \<open>_message_to_words\<close>.\<close>

definition pad_message :: "byte list \<Rightarrow> error + byte list" where
  "pad_message msg =
     (let message_length = int (length msg);
          padding_length = (message_length + 1) mod 8
      in bind_res (to_bytes (message_length mod 256) 1 Little) (\<lambda>length_byte.
         Inr (msg @ replicate (nat padding_length) 0 @ length_byte)))"

definition message_to_words :: "byte list \<Rightarrow> error + int list" where
  "message_to_words msg =
     bind_res (pad_message msg) (\<lambda>padded.
     Inr (map (\<lambda>i. from_bytes (take 8 (drop i padded)) Little) (range8 0 (length padded))))"

text \<open>\<open>for _ in range(n): state = _sipround(state)\<close>; \<open>range\<close> of a non-positive
  count is empty, which is \<open>nat\<close> of the count here.\<close>

fun sipround_times :: "nat \<Rightarrow> internal_state \<Rightarrow> error + internal_state" where
  "sipround_times 0 st = Inr st"
| "sipround_times (Suc n) st = bind_res (sipround st) (sipround_times n)"

fun compress_words :: "int \<Rightarrow> int list \<Rightarrow> internal_state \<Rightarrow> error + internal_state" where
  "compress_words cr [] st = Inr st"
| "compress_words cr (word # words) (v0, v1, v2, v3) =
     (let v3 = v3 XOR word in
      bind_res (sipround_times (nat cr) (v0, v1, v2, v3)) (\<lambda>(v0, v1, v2, v3).
      let v0 = v0 XOR word in
      compress_words cr words (v0, v1, v2, v3)))"

definition compress :: "SipHash \<Rightarrow> byte list \<Rightarrow> internal_state \<Rightarrow> error + internal_state" where
  "compress self msg internal_state =
     bind_res (message_to_words msg) (\<lambda>words. compress_words (c self) words internal_state)"

fun finalise :: "SipHash \<Rightarrow> internal_state \<Rightarrow> error + int" where
  "finalise self (v0, v1, v2, v3) =
     (let v2 = v2 XOR 0xff in
      bind_res (sipround_times (nat (d self)) (v0, v1, v2, v3)) (\<lambda>(v0, v1, v2, v3).
      Inr (v0 XOR v1 XOR v2 XOR v3)))"

text \<open>\<open>get_hash\<close> returns the outcome and the instance after the call: an exception
  leaves the instance as it was, since \<open>self.hash\<close> is assigned last.\<close>

definition get_hash :: "SipHash \<Rightarrow> (error + int) \<times> SipHash" where
  "get_hash self =
     (case hash self of
        None \<Rightarrow>
          (case bind_res (encode_key (key self)) (\<lambda>(k0, k1).
                  let internal_state = initialise_internal_state k0 k1 in
                  bind_res (compress self (message self) internal_state) (\<lambda>internal_state.
                  finalise self internal_state)) of
             Inl e \<Rightarrow> (Inl e, self)
           | Inr h \<Rightarrow> (Inr h, self\<lparr>hash := Some h\<rparr>))
      | Some h \<Rightarrow> (Inr h, self))"

definition hexdigest :: "SipHash \<Rightarrow> (error + string) \<times> SipHash" where
  "hexdigest self =
     (case get_hash self of
        (Inl e, self') \<Rightarrow> (Inl e, self')
      | (Inr h, self') \<Rightarrow> (Inr (drop 2 (hex h)), self'))"

section \<open>The specification's operations on 64-bit words\<close>

text \<open>
  These definitions follow the words of the specification (sections 4.1 and 4.5), on
  the type of 64-bit words, where \<open>+\<close> wraps around. They are compared with the
  functions of the source below.
\<close>

definition spec_rotateLeft64 :: "64 word \<Rightarrow> nat \<Rightarrow> 64 word" where
  "spec_rotateLeft64 v bits = push_bit bits v OR drop_bit (64 - bits) v"

text \<open>Byte \<open>i\<close> of the value, counted from the least significant one, moves to
  position \<open>7 - i\<close>.\<close>

definition spec_byteSwap64 :: "int \<Rightarrow> int" where
  "spec_byteSwap64 v = (\<Sum>i\<leftarrow>[0..<8]. push_bit (8 * (7 - i)) (drop_bit (8 * i) v AND 0xff))"

definition spec_sipRound :: "64 word \<times> 64 word \<times> 64 word \<times> 64 word \<Rightarrow> 64 word \<times> 64 word \<times> 64 word \<times> 64 word" where
  "spec_sipRound st = (case st of (v0, v1, v2, v3) \<Rightarrow>
     let v0 = v0 + v1; v1 = spec_rotateLeft64 v1 13; v1 = v1 XOR v0; v0 = spec_rotateLeft64 v0 32;
         v2 = v2 + v3; v3 = spec_rotateLeft64 v3 16; v3 = v3 XOR v2;
         v2 = v2 + v1; v1 = spec_rotateLeft64 v1 17; v1 = v1 XOR v2; v2 = spec_rotateLeft64 v2 32;
         v0 = v0 + v3; v3 = spec_rotateLeft64 v3 21; v3 = v3 XOR v0
     in (v0, v1, v2, v3))"

text \<open>The undoing of each step of \<open>spec_sipRound\<close>, last step first.\<close>

definition spec_sipRound_inv :: "64 word \<times> 64 word \<times> 64 word \<times> 64 word \<Rightarrow> 64 word \<times> 64 word \<times> 64 word \<times> 64 word" where
  "spec_sipRound_inv st = (case st of (v0, v1, v2, v3) \<Rightarrow>
     let v3 = v3 XOR v0; v3 = word_rotr 21 v3; v0 = v0 - v3;
         v2 = word_rotr 32 v2; v1 = v1 XOR v2; v1 = word_rotr 17 v1; v2 = v2 - v1;
         v3 = v3 XOR v2; v3 = word_rotr 16 v3; v2 = v2 - v3;
         v0 = word_rotr 32 v0; v1 = v1 XOR v0; v1 = word_rotr 13 v1; v0 = v0 - v1
     in (v0, v1, v2, v3))"

text \<open>A state of four 64-bit words as the integers of the source, and the set of
  all such states.\<close>

definition state_of :: "64 word \<times> 64 word \<times> 64 word \<times> 64 word \<Rightarrow> internal_state" where
  "state_of st = (case st of (v0, v1, v2, v3) \<Rightarrow> (uint v0, uint v1, uint v2, uint v3))"

definition word64_states :: "internal_state set" where
  "word64_states = {(v0, v1, v2, v3).
     0 \<le> v0 \<and> v0 < 2 ^ 64 \<and> 0 \<le> v1 \<and> v1 < 2 ^ 64 \<and> 0 \<le> v2 \<and> v2 < 2 ^ 64 \<and> 0 \<le> v3 \<and> v3 < 2 ^ 64}"

section \<open>Basic facts\<close>

lemma bind_res_simps [simp]:
  "bind_res (Inr x) f = f x"
  "bind_res (Inl e) f = Inl e"
  by (simp_all add: bind_res_def)

lemma SipHash_init_sel [simp]:
  "key (SipHash_init k m cr dr) = k"
  "message (SipHash_init k m cr dr) = m"
  "c (SipHash_init k m cr dr) = cr"
  "d (SipHash_init k m cr dr) = dr"
  "hash (SipHash_init k m cr dr) = None"
  by (simp_all add: SipHash_init_def)

lemma le_bytes_1: "le_bytes 1 n = [word_of_int (n mod 256)]"
  by simp

lemma le_bytes_8:
  "le_bytes 8 n =
     [word_of_int (n mod 256),
      word_of_int (n div 256 mod 256),
      word_of_int (n div 256 div 256 mod 256),
      word_of_int (n div 256 div 256 div 256 mod 256),
      word_of_int (n div 256 div 256 div 256 div 256 mod 256),
      word_of_int (n div 256 div 256 div 256 div 256 div 256 mod 256),
      word_of_int (n div 256 div 256 div 256 div 256 div 256 div 256 mod 256),
      word_of_int (n div 256 div 256 div 256 div 256 div 256 div 256 div 256 mod 256)]"
  by (simp add: eval_nat_numeral)

lemma sipround_times_fun:
  "sipround_times 0 = Inr"
  "sipround_times (Suc n) = (\<lambda>st. bind_res (sipround st) (sipround_times n))"
  by (rule ext, simp)+

lemma sipround_times_2:
  "sipround_times 2 st = bind_res (sipround st) (\<lambda>st. bind_res (sipround st) Inr)"
  by (simp add: eval_nat_numeral sipround_times_fun)

lemma sipround_times_4:
  "sipround_times 4 st =
     bind_res (sipround st) (\<lambda>st. bind_res (sipround st) (\<lambda>st.
     bind_res (sipround st) (\<lambda>st. bind_res (sipround st) Inr)))"
  by (simp add: eval_nat_numeral sipround_times_fun)

section \<open>The source's round on 64-bit words\<close>

lemma mask64: "(0xffffffffffffffff :: int) = mask 64"
  by (simp add: mask_eq_exp_minus_1)

lemma add_mask64: "(uint a + uint b) AND 0xffffffffffffffff = uint (a + b)" for a b :: "64 word"
  by (simp only: mask64 uint_word_arith_bintrs flip: take_bit_eq_mask) simp

lemma rotl8_word:
  assumes "bits \<le> 64"
  shows "rotl8 (uint v) (int bits) = Inr (uint (spec_rotateLeft64 v bits))"
proof -
  have tb: "take_bit 64 (uint v) = uint v"
    using uint_bounded [of v] by (simp add: take_bit_int_eq_self)
  have "(push_bit bits (uint v) AND 0xffffffffffffffff) OR drop_bit (64 - bits) (uint v)
      = uint (push_bit bits v OR drop_bit (64 - bits) v)"
    by (simp only: mask64 unsigned_or_eq unsigned_push_bit_eq unsigned_drop_bit_eq flip: take_bit_eq_mask) (simp add: tb)
  moreover have "nat (64 - int bits) = 64 - bits" using assms by simp
  ultimately show ?thesis using assms
    by (simp add: rotl8_def spec_rotateLeft64_def)
qed

lemma rotl8_word_numeral:
  "numeral n \<le> (64::nat) \<Longrightarrow> rotl8 (uint v) (numeral n) = Inr (uint (spec_rotateLeft64 v (numeral n)))"
  using rotl8_word [of "numeral n" v] by simp

lemma sipround_word:
  "sipround (state_of ws) = Inr (state_of (spec_sipRound ws))"
  by (cases ws) (simp add: state_of_def spec_sipRound_def Let_def add_mask64 rotl8_word_numeral flip: unsigned_xor_eq)

text \<open>
  C4. \<open>_sipround\<close> applies the step sequence of the specification: on the integers
  of four 64-bit words it raises nothing and returns the integers of
  \<open>spec_sipRound\<close>, whose additions are modulo \<open>2 ^ 64\<close> and whose rotations are by
  13, 32, 16, 17, 32 and 21 in that order. Two applications in sequence from the state
  of \<open>test_sipround\<close> give the state expected there.
\<close>

theorem sipround_arx_sequence:
  "sipround (uint v0, uint v1, uint v2, uint v3) =
     Inr (state_of (spec_sipRound (v0, v1, v2, v3)))
   \<and> bind_res (sipround (0x7469686173716475, 0x6b617f6d656e6665, 0x6b7f62616d677361,
         0x7c6d6c6a717c6d7b)) sipround =
     Inr (0x4d07749cdd0858e0, 0x0d52f6f62a4f59a4, 0x634cb3577b01fd3d, 0xa5224d6f55c7d9c8)"
proof
  show "sipround (uint v0, uint v1, uint v2, uint v3) =
      Inr (state_of (spec_sipRound (v0, v1, v2, v3)))"
    using sipround_word [of "(v0, v1, v2, v3)"] by (simp add: state_of_def)
next
  show "bind_res (sipround (0x7469686173716475, 0x6b617f6d656e6665, 0x6b7f62616d677361,
         0x7c6d6c6a717c6d7b)) sipround =
     Inr (0x4d07749cdd0858e0, 0x0d52f6f62a4f59a4, 0x634cb3577b01fd3d, 0xa5224d6f55c7d9c8)"
    by (simp add: rotl8_def)
qed

lemma spec_rotateLeft64_eq_word_rotl:
  assumes "bits \<le> 64"
  shows "spec_rotateLeft64 v bits = word_rotl bits v"
proof (rule bit_word_eqI)
  fix n :: nat
  assume "n < LENGTH(64)"
  then have n: "n < 64" by simp
  have L: "bit (spec_rotateLeft64 v bits) n \<longleftrightarrow>
      (bits \<le> n \<and> bit v (n - bits)) \<or> bit v (64 - bits + n)"
    using n by (simp add: spec_rotateLeft64_def bit_or_iff bit_push_bit_iff bit_drop_bit_eq)
  have R: "bit (word_rotl bits v) n \<longleftrightarrow> bit v ((n + (64 - bits mod 64)) mod 64)"
    using n by (simp add: bit_word_rotl_iff)
  consider "bits = 64" | "bits < 64" "bits \<le> n" | "bits < 64" "n < bits"
    using assms by linarith
  then show "bit (spec_rotateLeft64 v bits) n \<longleftrightarrow> bit (word_rotl bits v) n"
  proof cases
    case 1
    show ?thesis unfolding L R using 1 n by simp
  next
    case 2
    then have idx: "(n + (64 - bits mod 64)) mod 64 = n - bits"
      using n by (simp add: mod_if)
    from 2 n have "\<not> 64 - bits + n < 64" by simp
    then have "\<not> bit v (64 - bits + n)"
      using bit_imp_le_length [of v "64 - bits + n"] by auto
    with 2 show ?thesis unfolding L R idx by simp
  next
    case 3
    then have idx: "(n + (64 - bits mod 64)) mod 64 = 64 - bits + n"
      using n by simp
    from 3 show ?thesis unfolding L R idx by simp
  qed
qed

lemma xor_cancel_word: "(a XOR b) XOR b = a" for a b :: "64 word"
  by (simp add: xor.assoc)

lemma spec_sipRound_inv_left: "spec_sipRound_inv (spec_sipRound ws) = ws"
  by (cases ws) (simp add: spec_sipRound_def spec_sipRound_inv_def Let_def spec_rotateLeft64_eq_word_rotl xor_cancel_word)

lemma spec_sipRound_inv_right: "spec_sipRound (spec_sipRound_inv ws) = ws"
  by (cases ws) (simp add: spec_sipRound_def spec_sipRound_inv_def Let_def spec_rotateLeft64_eq_word_rotl xor_cancel_word)

lemma bij_spec_sipRound: "bij spec_sipRound"
  by (rule bij_betw_byWitness [where f' = spec_sipRound_inv])
    (simp_all add: spec_sipRound_inv_left spec_sipRound_inv_right)

lemma uint64_bounded: "uint w < 18446744073709551616" for w :: "64 word"
  using uint_bounded [of w] by simp

lemma inj_state_of: "inj state_of"
  by (auto simp add: inj_on_def state_of_def simp flip: word_uint_eq_iff)

lemma word64_states_eq: "word64_states = range state_of"
proof 
  show "range state_of \<subseteq> word64_states"
    by (auto simp add: word64_states_def state_of_def uint64_bounded)
next
  show "word64_states \<subseteq> range state_of"
  proof
    fix st assume "st \<in> word64_states"
    then obtain v0 v1 v2 v3 where st: "st = (v0, v1, v2, v3)"
      and r: "0 \<le> v0" "v0 < 2 ^ 64" "0 \<le> v1" "v1 < 2 ^ 64" "0 \<le> v2" "v2 < 2 ^ 64" "0 \<le> v3" "v3 < 2 ^ 64"
      by (auto simp add: word64_states_def)
    have "\<And>v. 0 \<le> v \<Longrightarrow> v < 2 ^ 64 \<Longrightarrow> uint (word_of_int v :: 64 word) = v"
      by (simp add: uint_word_of_int)
    with r have "st = state_of (word_of_int v0, word_of_int v1, word_of_int v2, word_of_int v3)"
      by (simp add: st state_of_def)
    then show "st \<in> range state_of" by blast
  qed
qed

text \<open>
  C9. \<open>_sipround\<close> is a permutation of the states of four 64-bit words: on
  \<open>word64_states\<close> it raises nothing, it is injective (two distinct states never have
  the same output state), and every state of \<open>word64_states\<close> is the output of one.
\<close>

theorem sipround_permutation: "bij_betw sipround word64_states (Inr ` word64_states)"
proof -
  have "inj_on sipround (range state_of)"
  proof (rule inj_onI)
    fix x y assume "x \<in> range state_of" "y \<in> range state_of" and eq: "sipround x = sipround y"
    then obtain a b where x: "x = state_of a" and y: "y = state_of b" by blast
    from eq have "state_of (spec_sipRound a) = state_of (spec_sipRound b)"
      by (simp add: x y sipround_word)
    then have "spec_sipRound a = spec_sipRound b"
      using inj_state_of by (simp add: inj_eq)
    then have "a = b"
      using bij_spec_sipRound by (simp add: bij_def inj_eq)
    then show "x = y" by (simp add: x y)
  qed
  moreover have "sipround ` range state_of = Inr ` range state_of"
  proof -
    have "sipround ` range state_of = range (\<lambda>ws. Inr (state_of (spec_sipRound ws)))"
      by (simp add: image_image sipround_word)
    also have "\<dots> = (\<lambda>ws. Inr (state_of ws)) ` range spec_sipRound"
      by (simp add: image_image)
    also have "range spec_sipRound = UNIV"
      using bij_spec_sipRound by (simp add: bij_def)
    finally show ?thesis by (simp add: image_image)
  qed
  ultimately show ?thesis
    by (simp add: bij_betw_def word64_states_eq)
qed

theorem sipround_permutation_witness:
  "(0, 0, 0, 0) \<in> word64_states \<and> (1, 0, 0, 0) \<in> word64_states
   \<and> sipround (0, 0, 0, 0) \<noteq> sipround (1, 0, 0, 0)"
proof -
  have a: "(0, 0, 0, 0) \<in> word64_states" and b: "(1, 0, 0, 0) \<in> word64_states"
    by (simp_all add: word64_states_def)
  have "inj_on sipround word64_states"
    using sipround_permutation by (rule bij_betw_imp_inj_on)
  from inj_onD [OF this _ a b] have "sipround (0, 0, 0, 0) \<noteq> sipround (1, 0, 0, 0)"
    by auto
  with a b show ?thesis by simp
qed

section \<open>Key encoding, totality and errors\<close>

lemma upt_8: "[0..<8] = [0, 1, 2, 3, 4, 5, 6, 7]"
  by (simp add: upt_rec)

lemma and_255: "k AND 0xff = k mod 256" for k :: int
proof -
  have "(0xff :: int) = mask 8" by (simp add: mask_eq_exp_minus_1)
  then show ?thesis by (simp only: take_bit_eq_mod flip: take_bit_eq_mask) simp
qed

lemma uint_byte_of_mod: "uint (word_of_int (k mod 256) :: byte) = k mod 256"
  by (simp add: uint_word_of_int)

lemma big_to_little8_eq:
  assumes "0 \<le> n" "n < 2 ^ 64"
  shows "big_to_little8 n = Inr (spec_byteSwap64 n)"
proof -
  have top: "uint (word_of_int (n div 72057594037927936) :: byte) = n div 72057594037927936"
    using uint_byte_of_mod [of "n div 72057594037927936"] assms by simp
  show ?thesis
  using assms top
  by (simp add: big_to_little8_def to_bytes_def from_bytes_def le_bytes_8 uint_byte_of_mod
      spec_byteSwap64_def upt_8 and_255 drop_bit_eq_div push_bit_eq_mult zdiv_zmult2_eq [symmetric])
qed

lemma big_to_little8_negative: "n < 0 \<Longrightarrow> big_to_little8 n = Inl OverflowError"
  by (simp add: big_to_little8_def to_bytes_def)

lemma big_to_little8_too_big: "2 ^ 64 \<le> n \<Longrightarrow> big_to_little8 n = Inl OverflowError"
  by (simp add: big_to_little8_def to_bytes_def)

lemma key_high_range:
  fixes k :: int
  assumes "0 \<le> k" "k < 2 ^ 128"
  shows "0 \<le> drop_bit 64 k" "drop_bit 64 k < 2 ^ 64"
proof -
  from assms have "0 \<le> k div 18446744073709551616" "k div 18446744073709551616 < 18446744073709551616"
    by simp_all
  then show "0 \<le> drop_bit 64 k" "drop_bit 64 k < 2 ^ 64"
    by (simp_all add: drop_bit_eq_div)
qed

lemma key_low_range: "0 \<le> k AND 0xffffffffffffffff" "k AND 0xffffffffffffffff < 2 ^ 64" for k :: int
proof -
  have "k AND 0xffffffffffffffff = take_bit 64 k"
    by (simp only: mask64 flip: take_bit_eq_mask)
  then show "0 \<le> k AND 0xffffffffffffffff" "k AND 0xffffffffffffffff < 2 ^ 64"
    using take_bit_int_less_exp [of 64 k] by simp_all
qed

lemma encode_key_eq:
  fixes k :: int
  assumes "0 \<le> k" "k < 2 ^ 128"
  shows "encode_key k =
    Inr (spec_byteSwap64 (drop_bit 64 k), spec_byteSwap64 (k AND 0xffffffffffffffff))"
proof -
  have "big_to_little8 (drop_bit 64 k) = Inr (spec_byteSwap64 (drop_bit 64 k))"
    using key_high_range [OF assms] by (rule big_to_little8_eq)
  moreover have "big_to_little8 (k AND 0xffffffffffffffff) =
      Inr (spec_byteSwap64 (k AND 0xffffffffffffffff))"
    using key_low_range [of k] by (rule big_to_little8_eq)
  ultimately show ?thesis by (simp add: encode_key_def)
qed

lemma encode_key_negative: "k < 0 \<Longrightarrow> encode_key k = Inl OverflowError"
  by (simp add: encode_key_def big_to_little8_negative)

lemma encode_key_too_big:
  assumes "2 ^ 128 \<le> k"
  shows "encode_key k = Inl OverflowError"
proof -
  have "(2 ^ 128 :: int) div 2 ^ 64 \<le> k div 2 ^ 64"
    using assms by (rule zdiv_mono1) simp
  then have "2 ^ 64 \<le> drop_bit 64 k"
    by (simp add: drop_bit_eq_div)
  then show ?thesis
    by (simp add: encode_key_def big_to_little8_too_big)
qed

lemma sipround_total: "\<exists>st'. sipround st = Inr st'"
  by (cases st) (simp add: rotl8_def Let_def)

lemma sipround_times_total: "\<exists>st'. sipround_times n st = Inr st'"
proof (induction n arbitrary: st)
  case 0
  show ?case by (rule exI [of _ st]) simp
next
  case (Suc n)
  obtain st1 where "sipround st = Inr st1"
    using sipround_total by blast
  with Suc.IH [of st1] show ?case by simp
qed

lemma compress_words_total: "\<exists>st'. compress_words cr ws st = Inr st'"
proof (induction ws arbitrary: st)
  case Nil
  show ?case by (rule exI [of _ st]) simp
next
  case (Cons w ws)
  obtain v0 v1 v2 v3 where st: "st = (v0, v1, v2, v3)"
    by (rule prod_cases4)
  obtain st1 where st1: "sipround_times (nat cr) (v0, v1, v2, v3 XOR w) = Inr st1"
    using sipround_times_total by blast
  obtain u0 u1 u2 u3 where u: "st1 = (u0, u1, u2, u3)"
    by (rule prod_cases4)
  from Cons.IH [of "(u0 XOR w, u1, u2, u3)"] show ?case
    by (simp add: st st1 u)
qed

lemma pad_message_eq:
  "pad_message msg =
     Inr (msg @ replicate ((length msg + 1) mod 8) 0 @ [word_of_int (int (length msg) mod 256)])"
proof -
  have "nat ((int (length msg) + 1) mod 8) = (length msg + 1) mod 8"
    by (simp add: nat_mod_distrib nat_add_distrib)
  moreover have "int (length msg) mod 256 < 256" "0 \<le> int (length msg) mod 256"
    by simp_all
  ultimately show ?thesis
    by (simp add: pad_message_def to_bytes_def Let_def not_le del: pos_mod_bound pos_mod_sign)
qed

lemma message_to_words_total: "\<exists>ws. message_to_words msg = Inr ws"
  by (simp add: message_to_words_def pad_message_eq)

lemma compress_total: "\<exists>st'. compress self msg st = Inr st'"
proof -
  obtain ws where "message_to_words msg = Inr ws"
    using message_to_words_total by blast
  with compress_words_total [of "c self" ws st] show ?thesis
    by (simp add: compress_def)
qed

lemma finalise_total: "\<exists>h. finalise self st = Inr h"
proof -
  obtain v0 v1 v2 v3 where st: "st = (v0, v1, v2, v3)"
    by (rule prod_cases4)
  obtain st1 where st1: "sipround_times (nat (d self)) (v0, v1, v2 XOR 0xff, v3) = Inr st1"
    using sipround_times_total by blast
  obtain u0 u1 u2 u3 where u: "st1 = (u0, u1, u2, u3)"
    by (rule prod_cases4)
  show ?thesis by (simp add: st st1 u)
qed

lemma get_hash_cached: "hash self = Some h \<Longrightarrow> get_hash self = (Inr h, self)"
  by (simp add: get_hash_def)

lemma get_hash_fresh_total:
  assumes "0 \<le> key self" "key self < 2 ^ 128" "hash self = None"
  shows "\<exists>h. get_hash self = (Inr h, self\<lparr>hash := Some h\<rparr>)"
proof -
  obtain k0 k1 where k: "encode_key (key self) = Inr (k0, k1)"
    using encode_key_eq [OF assms(1,2)] by blast
  obtain st where st: "compress self (message self) (initialise_internal_state k0 k1) = Inr st"
    using compress_total by blast
  obtain h where h: "finalise self st = Inr h"
    using finalise_total by blast
  from k st h assms(3) show ?thesis
    by (simp add: get_hash_def del: finalise.simps)
qed

lemma get_hash_error:
  assumes "encode_key (key self) = Inl e" "hash self = None"
  shows "get_hash self = (Inl e, self)"
  using assms by (simp add: get_hash_def)

section \<open>Word counts and round counts\<close>

lemma range8_step_count:
  fixes i n :: nat
  assumes "i < n"
  shows "Suc ((n - (i + 8) + 7) div 8) = (n - i + 7) div 8"
proof (cases "i + 8 \<le> n")
  case True
  then have "n - i + 7 = (n - (i + 8) + 7) + 8"
    by simp
  then show ?thesis
    by (simp only: div_add_self2)
next
  case False
  with assms have "n - (i + 8) = 0" and "8 \<le> n - i + 7" and "n - i + 7 < 16"
    by simp_all
  then have "(n - i + 7) div 8 = 1"
    by (simp add: div_nat_eqI)
  with \<open>n - (i + 8) = 0\<close> show ?thesis
    by simp
qed

lemma length_range8: "length (range8 i n) = (n - i + 7) div 8"
proof (induction i n rule: range8.induct)
  case (1 i n)
  show ?case
  proof (cases "i < n")
    case True
    then have "length (range8 i n) = Suc (length (range8 (i + 8) n))"
      by (subst range8.simps) simp
    also have "\<dots> = Suc ((n - (i + 8) + 7) div 8)"
      using 1 True by simp
    also have "\<dots> = (n - i + 7) div 8"
      using True by (rule range8_step_count)
    finally show ?thesis .
  next
    case False
    then have "range8 i n = []"
      by (subst range8.simps) simp
    moreover from False have "(n - i + 7) div 8 = 0"
      by simp
    ultimately show ?thesis by simp
  qed
qed

lemma message_to_words_length:
  "\<exists>ws. message_to_words msg = Inr ws
     \<and> length ws = (length msg + (length msg + 1) mod 8 + 8) div 8"
  by (simp add: message_to_words_def pad_message_eq length_range8)


lemma compress_words_nat:
  "nat cr = nat cr' \<Longrightarrow> compress_words cr ws st = compress_words cr' ws st"
proof (induction ws arbitrary: st)
  case Nil
  show ?case by simp
next
  case (Cons w ws)
  obtain v0 v1 v2 v3 where st: "st = (v0, v1, v2, v3)"
    by (rule prod_cases4)
  have "\<And>st'. compress_words cr ws st' = compress_words cr' ws st'"
    using Cons by simp
  with Cons.prems show ?case by (simp add: st)
qed

lemma compress_max:
  "compress (SipHash_init k m (max 0 cr) (max 0 dr)) = compress (SipHash_init k m cr dr)"
proof (intro ext)
  fix msg st
  have "nat (max 0 cr) = nat cr" by simp
  then have "\<And>ws. compress_words (max 0 cr) ws st = compress_words cr ws st"
    by (rule compress_words_nat)
  then show "compress (SipHash_init k m (max 0 cr) (max 0 dr)) msg st =
      compress (SipHash_init k m cr dr) msg st"
    by (simp add: compress_def)
qed

lemma finalise_max:
  "finalise (SipHash_init k m (max 0 cr) (max 0 dr)) = finalise (SipHash_init k m cr dr)"
proof
  fix st :: internal_state
  obtain v0 v1 v2 v3 where st: "st = (v0, v1, v2, v3)"
    by (rule prod_cases4)
  have "nat (max 0 dr) = nat dr" by simp
  then show "finalise (SipHash_init k m (max 0 cr) (max 0 dr)) st = finalise (SipHash_init k m cr dr) st"
    by (simp only: st finalise.simps SipHash_init_sel)
qed

lemma fst_get_hash_fresh:
  "hash self = None \<Longrightarrow>
   fst (get_hash self) =
     bind_res (encode_key (key self)) (\<lambda>(k0, k1).
       bind_res (compress self (message self) (initialise_internal_state k0 k1)) (finalise self))"
  by (simp add: get_hash_def Let_def split: sum.splits)

section \<open>The test vector of the paper\<close>

text \<open>The intermediate values are those of \<open>test_siphash.py\<close>.\<close>

lemma vector_encode_key:
  "encode_key 0x000102030405060708090a0b0c0d0e0f = Inr (0x0706050403020100, 0x0f0e0d0c0b0a0908)"
  by (simp add: encode_key_def big_to_little8_def to_bytes_def from_bytes_def le_bytes_8)

lemma vector_initialise_internal_state:
  "initialise_internal_state 0x0706050403020100 0x0f0e0d0c0b0a0908 =
     (0x7469686173716475, 0x6b617f6d656e6665, 0x6b7f62616d677361, 0x7b6b696e727e6c7b)"
  by (simp add: initialise_internal_state_def)

lemma vector_message_to_words:
  "message_to_words [0, 1, 2, 3, 4, 5, 6, 7, 8, 9, 10, 11, 12, 13, 14] =
     Inr [0x0706050403020100, 0x0f0e0d0c0b0a0908]"
  by (simp add: message_to_words_def pad_message_def to_bytes_def from_bytes_def range8.simps)

lemma vector_compress:
  "compress (SipHash_init k m 2 dr) [0, 1, 2, 3, 4, 5, 6, 7, 8, 9, 10, 11, 12, 13, 14]
       (0x7469686173716475, 0x6b617f6d656e6665, 0x6b7f62616d677361, 0x7b6b696e727e6c7b) =
     Inr (0x3c85b3ab6f55be51, 0x414fc3fb98efe374, 0xccf13ea527b9f4bd, 0x5293f5da84008f82)"
  by (simp add: compress_def vector_message_to_words sipround_times_2 rotl8_def)

lemma vector_finalise:
  "finalise (SipHash_init k m cr 4)
       (0x3c85b3ab6f55be51, 0x414fc3fb98efe374, 0xccf13ea527b9f4bd, 0x5293f5da84008f82) =
     Inr 0xa129ca6149be45e5"
  by (simp add: sipround_times_4 rotl8_def)

lemma vector_hex: "hex 0xa129ca6149be45e5 = ''0xa129ca6149be45e5''"
  by (simp add: hex_def hex_digits.simps hex_digit_def)

text \<open>
  C1. For the key \<open>0x000102030405060708090a0b0c0d0e0f\<close>, the 15-byte message
  \<open>00 01 ... 0e\<close> and the default round counts \<open>c = 2\<close>, \<open>d = 4\<close>, \<open>get_hash\<close>
  returns \<open>0xa129ca6149be45e5\<close> (and stores it on the instance) and \<open>hexdigest\<close>
  returns the string \<open>a129ca6149be45e5\<close>.
\<close>

theorem known_answer_vector:
  "get_hash (SipHash_init 0x000102030405060708090a0b0c0d0e0f
       [0, 1, 2, 3, 4, 5, 6, 7, 8, 9, 10, 11, 12, 13, 14] 2 4) =
     (Inr 0xa129ca6149be45e5,
      (SipHash_init 0x000102030405060708090a0b0c0d0e0f
         [0, 1, 2, 3, 4, 5, 6, 7, 8, 9, 10, 11, 12, 13, 14] 2 4)\<lparr>hash := Some 0xa129ca6149be45e5\<rparr>)
   \<and> fst (hexdigest (SipHash_init 0x000102030405060708090a0b0c0d0e0f
       [0, 1, 2, 3, 4, 5, 6, 7, 8, 9, 10, 11, 12, 13, 14] 2 4)) = Inr ''a129ca6149be45e5''"
  by (simp add: hexdigest_def get_hash_def vector_encode_key vector_initialise_internal_state
      vector_compress vector_finalise vector_hex del: finalise.simps)

section \<open>Key encoding\<close>

text \<open>
  C5. For every key with \<open>0 \<le> key < 2 ^ 128\<close>, \<open>_encode_key\<close> returns the byte swap of
  the high 64 bits (\<open>key >> 64\<close>) and the byte swap of the low 64 bits
  (\<open>key & (2 ^ 64 - 1)\<close>); for the key \<open>0x000102030405060708090a0b0c0d0e0f\<close> these are
  \<open>0x0706050403020100\<close> and \<open>0x0f0e0d0c0b0a0908\<close>.
\<close>

theorem encode_key_byte_swap:
  fixes k :: int
  assumes "0 \<le> k" "k < 2 ^ 128"
  shows "encode_key k =
      Inr (spec_byteSwap64 (drop_bit 64 k), spec_byteSwap64 (k AND 0xffffffffffffffff))
    \<and> encode_key 0x000102030405060708090a0b0c0d0e0f =
      Inr (0x0706050403020100, 0x0f0e0d0c0b0a0908)"
  using assms by (simp add: encode_key_eq vector_encode_key)

theorem encode_key_byte_swap_witness:
  "(0 :: int) \<le> 0x000102030405060708090a0b0c0d0e0f
   \<and> (0x000102030405060708090a0b0c0d0e0f :: int) < 2 ^ 128
   \<and> encode_key 0x000102030405060708090a0b0c0d0e0f =
     Inr (spec_byteSwap64 (drop_bit 64 0x000102030405060708090a0b0c0d0e0f),
          spec_byteSwap64 (0x000102030405060708090a0b0c0d0e0f AND 0xffffffffffffffff))
   \<and> spec_byteSwap64 (drop_bit 64 0x000102030405060708090a0b0c0d0e0f) = 0x0706050403020100
   \<and> spec_byteSwap64 (0x000102030405060708090a0b0c0d0e0f AND 0xffffffffffffffff) =
     0x0f0e0d0c0b0a0908"
proof -
  have a: "(0 :: int) \<le> 0x000102030405060708090a0b0c0d0e0f"
    and b: "(0x000102030405060708090a0b0c0d0e0f :: int) < 2 ^ 128"
    by simp_all
  have hi: "spec_byteSwap64 (drop_bit 64 0x000102030405060708090a0b0c0d0e0f) = 0x0706050403020100"
    by (simp add: spec_byteSwap64_def upt_8 drop_bit_eq_div)
  have lo: "spec_byteSwap64 (0x000102030405060708090a0b0c0d0e0f AND 0xffffffffffffffff) =
      0x0f0e0d0c0b0a0908"
    by (simp add: spec_byteSwap64_def upt_8 drop_bit_eq_div)
  from encode_key_byte_swap [OF a b] a b hi lo show ?thesis
    by blast
qed

section \<open>Totality\<close>

text \<open>
  C8. For every message and every key with \<open>0 \<le> key < 2 ^ 128\<close> (and every \<open>c\<close> and
  \<open>d\<close>, positive or not), \<open>get_hash\<close> and \<open>hexdigest\<close> return a value and raise
  nothing, and so does each step: key encoding, message parsing, compression and
  finalisation (state initialisation has no error in its type).
\<close>

theorem pipeline_total:
  fixes k :: int
  assumes "0 \<le> k" "k < 2 ^ 128"
  shows "(\<exists>h. get_hash (SipHash_init k m cr dr) =
            (Inr h, (SipHash_init k m cr dr)\<lparr>hash := Some h\<rparr>)
          \<and> hexdigest (SipHash_init k m cr dr) =
            (Inr (drop 2 (hex h)), (SipHash_init k m cr dr)\<lparr>hash := Some h\<rparr>))
    \<and> (\<exists>k0 k1. encode_key k = Inr (k0, k1))
    \<and> (\<exists>ws. message_to_words m = Inr ws)
    \<and> (\<forall>st. \<exists>st'. compress (SipHash_init k m cr dr) m st = Inr st')
    \<and> (\<forall>st. \<exists>h. finalise (SipHash_init k m cr dr) st = Inr h)"
proof -
  obtain h where "get_hash (SipHash_init k m cr dr) =
      (Inr h, (SipHash_init k m cr dr)\<lparr>hash := Some h\<rparr>)"
    using get_hash_fresh_total [of "SipHash_init k m cr dr"] assms by auto
  then have "\<exists>h. get_hash (SipHash_init k m cr dr) =
            (Inr h, (SipHash_init k m cr dr)\<lparr>hash := Some h\<rparr>)
          \<and> hexdigest (SipHash_init k m cr dr) =
            (Inr (drop 2 (hex h)), (SipHash_init k m cr dr)\<lparr>hash := Some h\<rparr>)"
    by (simp add: hexdigest_def)
  moreover have "\<exists>k0 k1. encode_key k = Inr (k0, k1)"
    using encode_key_eq [OF assms] by blast
  moreover have "\<exists>ws. message_to_words m = Inr ws"
    by (rule message_to_words_total)
  moreover have "\<forall>st. \<exists>st'. compress (SipHash_init k m cr dr) m st = Inr st'"
    using compress_total by blast
  moreover have "\<forall>st. \<exists>h. finalise (SipHash_init k m cr dr) st = Inr h"
    using finalise_total by blast
  ultimately show ?thesis by blast
qed

theorem pipeline_total_witness:
  "(0 :: int) \<le> 5 \<and> (5 :: int) < 2 ^ 128
   \<and> (\<exists>h. get_hash (SipHash_init 5 [1, 2, 3] 2 4) =
          (Inr h, (SipHash_init 5 [1, 2, 3] 2 4)\<lparr>hash := Some h\<rparr>)
        \<and> hexdigest (SipHash_init 5 [1, 2, 3] 2 4) =
          (Inr (drop 2 (hex h)), (SipHash_init 5 [1, 2, 3] 2 4)\<lparr>hash := Some h\<rparr>))"
proof -
  have a: "(0 :: int) \<le> 5" and b: "(5 :: int) < 2 ^ 128"
    by simp_all
  from pipeline_total [OF a b, of "[1, 2, 3]" 2 4] a b show ?thesis
    by blast
qed

section \<open>Memoisation\<close>

lemma get_hash_same_outcome: "fst (get_hash (snd (get_hash self))) = fst (get_hash self)"
proof (cases "hash self")
  case None
  show ?thesis
  proof (cases "fst (get_hash self)")
    case (Inl e)
    with None have "snd (get_hash self) = self"
      by (simp add: get_hash_def split: sum.splits)
    then show ?thesis by simp
  next
    case (Inr h)
    with None have "snd (get_hash self) = self\<lparr>hash := Some h\<rparr>"
      by (simp add: get_hash_def split: sum.splits)
    with Inr show ?thesis by (simp add: get_hash_cached)
  qed
next
  case (Some h)
  then show ?thesis by (simp add: get_hash_cached)
qed

text \<open>
  C7. Two calls of \<open>get_hash\<close> on one instance have the same outcome, for every key,
  message, \<open>c\<close> and \<open>d\<close>. On an instance whose key is a 128-bit key the first call
  returns a digest and leaves it in the \<open>hash\<close> attribute; the second call returns the
  same digest and leaves the instance as it is. The second result is read from the
  attribute and not computed again: it stays the same when the key, the message and
  the round counts of the instance are replaced by any others.
\<close>

theorem get_hash_twice:
  "fst (get_hash (snd (get_hash self))) = fst (get_hash self)
   \<and> (0 \<le> key self \<and> key self < 2 ^ 128 \<longrightarrow>
      (\<exists>h. fst (get_hash self) = Inr h
        \<and> hash (snd (get_hash self)) = Some h
        \<and> get_hash (snd (get_hash self)) = (Inr h, snd (get_hash self))
        \<and> (\<forall>k m cr dr.
              fst (get_hash ((snd (get_hash self))\<lparr>key := k, message := m, c := cr, d := dr\<rparr>))
                = Inr h)))"
proof (intro conjI impI)
  show "fst (get_hash (snd (get_hash self))) = fst (get_hash self)"
    by (rule get_hash_same_outcome)
next
  assume k: "0 \<le> key self \<and> key self < 2 ^ 128"
  show "\<exists>h. fst (get_hash self) = Inr h
        \<and> hash (snd (get_hash self)) = Some h
        \<and> get_hash (snd (get_hash self)) = (Inr h, snd (get_hash self))
        \<and> (\<forall>k m cr dr.
              fst (get_hash ((snd (get_hash self))\<lparr>key := k, message := m, c := cr, d := dr\<rparr>))
                = Inr h)"
  proof (cases "hash self")
    case None
    then obtain h where "get_hash self = (Inr h, self\<lparr>hash := Some h\<rparr>)"
      using get_hash_fresh_total [of self] k by blast
    then show ?thesis
      by (simp add: get_hash_cached)
  next
    case (Some h)
    then have "get_hash self = (Inr h, self)"
      by (rule get_hash_cached)
    with Some show ?thesis
      by (simp add: get_hash_cached)
  qed
qed

theorem get_hash_twice_witness:
  "0 \<le> key (SipHash_init 5 [1, 2, 3] 2 4) \<and> key (SipHash_init 5 [1, 2, 3] 2 4) < 2 ^ 128
   \<and> (\<exists>h. fst (get_hash (SipHash_init 5 [1, 2, 3] 2 4)) = Inr h
      \<and> hash (snd (get_hash (SipHash_init 5 [1, 2, 3] 2 4))) = Some h
      \<and> get_hash (snd (get_hash (SipHash_init 5 [1, 2, 3] 2 4))) =
          (Inr h, snd (get_hash (SipHash_init 5 [1, 2, 3] 2 4))))"
proof -
  have a: "0 \<le> key (SipHash_init 5 [1, 2, 3] 2 4) \<and> key (SipHash_init 5 [1, 2, 3] 2 4) < 2 ^ 128"
    by simp
  from get_hash_twice [of "SipHash_init 5 [1, 2, 3] 2 4"] a show ?thesis
    by blast
qed

section \<open>Keys outside the 128 bits\<close>

text \<open>
  C10. For every negative key the constructor succeeds (it only stores its arguments,
  with \<open>hash = None\<close>), and the first \<open>get_hash\<close> or \<open>hexdigest\<close> raises the
  OverflowError of \<open>to_bytes\<close> in \<open>big_to_little8\<close>, leaving the instance as it was,
  with \<open>hash\<close> still \<open>None\<close>.
\<close>

theorem negative_key_deferred:
  assumes "k < 0"
  shows "key (SipHash_init k m cr dr) = k \<and> hash (SipHash_init k m cr dr) = None
    \<and> big_to_little8 (drop_bit (8 * 8) k) = Inl OverflowError
    \<and> get_hash (SipHash_init k m cr dr) = (Inl OverflowError, SipHash_init k m cr dr)
    \<and> hexdigest (SipHash_init k m cr dr) = (Inl OverflowError, SipHash_init k m cr dr)
    \<and> hash (snd (get_hash (SipHash_init k m cr dr))) = None"
proof -
  have "get_hash (SipHash_init k m cr dr) = (Inl OverflowError, SipHash_init k m cr dr)"
    using assms by (simp add: get_hash_error encode_key_negative)
  moreover have "big_to_little8 (drop_bit (8 * 8) k) = Inl OverflowError"
    using assms by (simp add: big_to_little8_negative)
  ultimately show ?thesis by (simp add: hexdigest_def)
qed

theorem negative_key_deferred_witness:
  "(- 1 :: int) < 0
   \<and> get_hash (SipHash_init (- 1) [] 2 4) = (Inl OverflowError, SipHash_init (- 1) [] 2 4)
   \<and> hexdigest (SipHash_init (- 1) [] 2 4) = (Inl OverflowError, SipHash_init (- 1) [] 2 4)
   \<and> hash (snd (get_hash (SipHash_init (- 1) [] 2 4))) = None"
proof -
  have a: "(- 1 :: int) < 0" by simp
  from negative_key_deferred [OF a, of "[]" 2 4] a show ?thesis
    by blast
qed

section \<open>Parameters that are not validated\<close>

text \<open>
  C3, as stated, fails: a non-positive round count raises nothing. With \<open>c = -1\<close> and
  \<open>d = 0\<close> no round is run, and the key \<open>0\<close> and the empty message give a digest.
\<close>

theorem nonpositive_rounds_counterexample:
  "get_hash (SipHash_init 0 [] (- 1) 0) =
     (Inr 0x0f1c1c0309061df5, (SipHash_init 0 [] (- 1) 0)\<lparr>hash := Some 0x0f1c1c0309061df5\<rparr>)"
  by (simp add: get_hash_def encode_key_def big_to_little8_def to_bytes_def from_bytes_def
      le_bytes_8 initialise_internal_state_def compress_def message_to_words_def pad_message_def
      range8.simps)

text \<open>
  C3, amended. A key of \<open>2 ^ 128\<close> or more makes the digest request raise the
  OverflowError of the byte conversion in key encoding, and nothing is stored. The
  round counts are not checked: with a 128-bit key a digest is returned for every
  \<open>c\<close> and \<open>d\<close>, and a non-positive count gives the digest of the count \<open>0\<close>.
\<close>

theorem oversized_key_rejected:
  "(2 ^ 128 \<le> k \<longrightarrow>
      get_hash (SipHash_init k m cr dr) = (Inl OverflowError, SipHash_init k m cr dr))
   \<and> (0 \<le> k \<and> k < 2 ^ 128 \<longrightarrow>
      (\<exists>h. fst (get_hash (SipHash_init k m cr dr)) = Inr h)
      \<and> fst (get_hash (SipHash_init k m cr dr)) =
        fst (get_hash (SipHash_init k m (max 0 cr) (max 0 dr))))"
proof -
  have "fst (get_hash (SipHash_init k m cr dr)) =
      fst (get_hash (SipHash_init k m (max 0 cr) (max 0 dr)))"
    by (simp add: fst_get_hash_fresh compress_max finalise_max del: finalise.simps)
  moreover have "0 \<le> k \<and> k < 2 ^ 128 \<longrightarrow> (\<exists>h. fst (get_hash (SipHash_init k m cr dr)) = Inr h)"
    using get_hash_fresh_total [of "SipHash_init k m cr dr"] by auto
  moreover have "2 ^ 128 \<le> k \<longrightarrow>
      get_hash (SipHash_init k m cr dr) = (Inl OverflowError, SipHash_init k m cr dr)"
    by (simp add: get_hash_error encode_key_too_big)
  ultimately show ?thesis by blast
qed

theorem oversized_key_rejected_witness:
  "(2 ^ 128 :: int) \<le> 2 ^ 128 \<and> (0 :: int) \<le> 0 \<and> (0 :: int) < 2 ^ 128
   \<and> get_hash (SipHash_init (2 ^ 128) [] 2 4) = (Inl OverflowError, SipHash_init (2 ^ 128) [] 2 4)
   \<and> (\<exists>h. fst (get_hash (SipHash_init 0 [] (- 1) 0)) = Inr h)
   \<and> fst (get_hash (SipHash_init 0 [] (- 1) 0)) =
       fst (get_hash (SipHash_init 0 [] (max 0 (- 1)) (max 0 0)))"
proof -
  have a: "(2 ^ 128 :: int) \<le> 2 ^ 128" and b: "(0 :: int) \<le> 0" and c': "(0 :: int) < 2 ^ 128"
    by simp_all
  from oversized_key_rejected [of "2 ^ 128" "[]" 2 4] oversized_key_rejected [of 0 "[]" "- 1" 0]
    a b c' show ?thesis
    by blast
qed

section \<open>Message parsing\<close>

text \<open>
  C6. \<open>_message_to_words\<close> of the empty message is the one word \<open>0\<close>, and of a message
  whose length is a multiple of 8 it is a list of \<open>length / 8 + 1\<close> words.
\<close>

theorem message_to_words_count:
  "message_to_words [] = Inr [0]
   \<and> (length msg mod 8 = 0 \<longrightarrow>
        (\<exists>ws. message_to_words msg = Inr ws \<and> length ws = length msg div 8 + 1))"
proof
  show "message_to_words [] = Inr [0]"
    by (simp add: message_to_words_def pad_message_eq range8.simps from_bytes_def)
next
  show "length msg mod 8 = 0 \<longrightarrow>
        (\<exists>ws. message_to_words msg = Inr ws \<and> length ws = length msg div 8 + 1)"
  proof
    assume m: "length msg mod 8 = 0"
    then have p: "(length msg + 1) mod 8 = 1"
      by (simp add: mod_Suc)
    obtain ws where ws: "message_to_words msg = Inr ws"
      "length ws = (length msg + (length msg + 1) mod 8 + 8) div 8"
      using message_to_words_length by blast
    from m obtain q where q: "length msg = 8 * q"
      by (auto simp add: mod_eq_0_iff_dvd)
    have "(8 * q + 1 + 8) div 8 = q + 1"
      by (rule div_nat_eqI) simp_all
    then have "(length msg + 1 + 8) div 8 = length msg div 8 + 1"
      by (simp add: q)
    with ws p have "length ws = length msg div 8 + 1"
      by simp
    with ws show "\<exists>ws. message_to_words msg = Inr ws \<and> length ws = length msg div 8 + 1"
      by blast
  qed
qed

theorem message_to_words_count_witness:
  "length [0, 1, 2, 3, 4, 5, 6, 7 :: byte] mod 8 = 0
   \<and> (\<exists>ws. message_to_words [0, 1, 2, 3, 4, 5, 6, 7] = Inr ws
         \<and> length ws = length [0, 1, 2, 3, 4, 5, 6, 7 :: byte] div 8 + 1)"
proof -
  have a: "length [0, 1, 2, 3, 4, 5, 6, 7 :: byte] mod 8 = 0" by simp
  from message_to_words_count [of "[0, 1, 2, 3, 4, 5, 6, 7]"] a show ?thesis
    by blast
qed

text \<open>
  C2 at a message of 8 bytes. The padded buffer is the message, one zero byte and the
  length byte: 10 bytes, not a multiple of 8, and not the 7 zero bytes before the
  length byte. The last word is then \<open>0x0800\<close>, where the length byte of a full last
  block would give \<open>0x0800000000000000\<close>.
\<close>

theorem padding_of_eight_bytes:
  "pad_message [0, 1, 2, 3, 4, 5, 6, 7] = Inr [0, 1, 2, 3, 4, 5, 6, 7, 0, 8]
   \<and> message_to_words [0, 1, 2, 3, 4, 5, 6, 7] = Inr [0x0706050403020100, 0x0800]"
  by (simp add: message_to_words_def pad_message_def to_bytes_def from_bytes_def range8.simps)

end
